theory Spec2Isabelle
  imports Main
begin

section \<open>Python values\<close>

text \<open>
  The adapter in \<^verbatim>\<open>composio_google/toolset.py\<close> moves untyped Python data around: JSON
  schemas, the arguments of a function call, the output of an action. One datatype holds
  all of them. A dict is the list of its items in insertion order; \<open>PMapComposite\<close> is the
  vendor's \<^verbatim>\<open>proto.marshal.collections.maps.MapComposite\<close>, a mapping with string keys that
  is not a \<^verbatim>\<open>dict\<close>; \<open>PObj\<close> is any other object (a float, a vendor repeated field, ...),
  known by an identifier only, which is neither a mapping nor a list nor a tuple.
\<close>

datatype pyval =
    PNone
  | PBool bool
  | PInt int
  | PStr string
  | PObj nat
  | PList "pyval list"
  | PTuple "pyval list"
  | PDict "(string \<times> pyval) list"
  | PMapComposite "(string \<times> pyval) list"

type_synonym dict = "(string \<times> pyval) list"

text \<open>The exceptions that can leave the adapter. \<open>Raised\<close> is whatever a collaborator
  outside this file raises (filter validation, schema normalisation, action execution);
  \<open>RecursionError\<close> is the interpreter's own; \<open>MalformedResponseError\<close> is the name the
  specification uses for a failure of the response walker.\<close>

datatype error =
    KeyError string
  | AttributeError string
  | RecursionError
  | MalformedResponseError
  | Raised string

subsection \<open>Dict operations\<close>

text \<open>\<^verbatim>\<open>d[k]\<close> and \<^verbatim>\<open>d.get(k, default)\<close>.\<close>

definition dict_get :: "dict \<Rightarrow> string \<Rightarrow> pyval option" where
  "dict_get d k = map_of d k"

definition dict_get_default :: "dict \<Rightarrow> string \<Rightarrow> pyval \<Rightarrow> pyval" where
  "dict_get_default d k dflt = (case dict_get d k of Some v \<Rightarrow> v | None \<Rightarrow> dflt)"

text \<open>\<^verbatim>\<open>d[k] = v\<close>: an existing key keeps its position and takes the new value, a new key
  goes to the end.\<close>

fun dict_set :: "string \<Rightarrow> pyval \<Rightarrow> dict \<Rightarrow> dict" where
  "dict_set k v [] = [(k, v)]"
| "dict_set k v ((k', v') # d) =
     (if k' = k then (k, v) # d else (k', v') # dict_set k v d)"

text \<open>A dict comprehension \<^verbatim>\<open>{k: v for k, v in pairs}\<close> stores the pairs one after the
  other into an empty dict.\<close>

fun dict_fill :: "dict \<Rightarrow> dict \<Rightarrow> dict" where
  "dict_fill d [] = d"
| "dict_fill d ((k, v) # kvs) = dict_fill (dict_set k v d) kvs"

definition dict_comp :: "dict \<Rightarrow> dict" where
  "dict_comp kvs = dict_fill [] kvs"

text \<open>\<^verbatim>\<open>obj.items()\<close>: defined on the two mappings, an \<^verbatim>\<open>AttributeError\<close> elsewhere.\<close>

fun items :: "pyval \<Rightarrow> error + dict" where
  "items (PDict kvs) = Inr kvs"
| "items (PMapComposite kvs) = Inr kvs"
| "items obj = Inl (AttributeError ''items'')"

text \<open>\<^verbatim>\<open>a or b\<close> on an optional string: \<^verbatim>\<open>None\<close> and the empty string are falsy.\<close>

definition or_else :: "string option \<Rightarrow> string \<Rightarrow> string" where
  "or_else a b = (case a of None \<Rightarrow> b | Some x \<Rightarrow> if x = [] then b else x)"

section \<open>The response walker\<close>

text \<open>
  \<^verbatim>\<open>
  def convert_map_composite(obj):
      if isinstance(obj, MapComposite):
          return {k: convert_map_composite(v) for k, v in obj.items()}
      elif isinstance(obj, (list, tuple)):
          return [convert_map_composite(item) for item in obj]
      else:
          return obj
  \<close>
\<close>

fun convert_map_composite :: "pyval \<Rightarrow> pyval" where
  "convert_map_composite (PMapComposite kvs) =
     PDict (dict_comp (map (\<lambda>(k, v). (k, convert_map_composite v)) kvs))"
| "convert_map_composite (PList xs) = PList (map convert_map_composite xs)"
| "convert_map_composite (PTuple xs) = PList (map convert_map_composite xs)"
| "convert_map_composite obj = obj"

text \<open>The two \<^verbatim>\<open>isinstance\<close> tests of the walker.\<close>

fun is_MapComposite :: "pyval \<Rightarrow> bool" where
  "is_MapComposite (PMapComposite kvs) = True"
| "is_MapComposite obj = False"

fun is_list_or_tuple :: "pyval \<Rightarrow> bool" where
  "is_list_or_tuple (PList xs) = True"
| "is_list_or_tuple (PTuple xs) = True"
| "is_list_or_tuple obj = False"

subsection \<open>The walker under the interpreter's recursion limit\<close>

text \<open>
  The source sets no bound on the nesting it walks. What bounds it is the interpreter:
  every activation of \<^verbatim>\<open>convert_map_composite\<close> takes room on the call stack, and CPython
  raises \<^verbatim>\<open>RecursionError\<close> when the limit is reached. \<open>convert_map_composite_lim n\<close> is
  the walker with room for \<open>n\<close> nested activations; the elements of a list or the items of
  a vendor map are walked from left to right and the first exception ends the walk.
\<close>

fun collect :: "(error + 'a) list \<Rightarrow> error + 'a list" where
  "collect [] = Inr []"
| "collect (r # rs) =
     (case r of
        Inl e \<Rightarrow> Inl e
      | Inr x \<Rightarrow> (case collect rs of Inl e \<Rightarrow> Inl e | Inr xs \<Rightarrow> Inr (x # xs)))"

fun convert_map_composite_lim :: "nat \<Rightarrow> pyval \<Rightarrow> error + pyval" where
  "convert_map_composite_lim 0 obj = Inl RecursionError"
| "convert_map_composite_lim (Suc n) (PMapComposite kvs) =
     (case collect (map (\<lambda>(k, v). case convert_map_composite_lim n v of
                                     Inl e \<Rightarrow> Inl e | Inr v' \<Rightarrow> Inr (k, v')) kvs) of
        Inl e \<Rightarrow> Inl e
      | Inr kvs' \<Rightarrow> Inr (PDict (dict_comp kvs')))"
| "convert_map_composite_lim (Suc n) (PList xs) =
     (case collect (map (convert_map_composite_lim n) xs) of
        Inl e \<Rightarrow> Inl e
      | Inr xs' \<Rightarrow> Inr (PList xs'))"
| "convert_map_composite_lim (Suc n) (PTuple xs) =
     (case collect (map (convert_map_composite_lim n) xs) of
        Inl e \<Rightarrow> Inl e
      | Inr xs' \<Rightarrow> Inr (PList xs'))"
| "convert_map_composite_lim (Suc n) obj = Inr obj"

text \<open>The number of nested activations the walker needs on a value: one for the value,
  and below a vendor map, a list or a tuple what its deepest member needs. A plain dict is
  not entered.\<close>

fun max_list :: "nat list \<Rightarrow> nat" where
  "max_list [] = 0"
| "max_list (n # ns) = max n (max_list ns)"

fun walk_depth :: "pyval \<Rightarrow> nat" where
  "walk_depth (PMapComposite kvs) = Suc (max_list (map (\<lambda>(k, v). walk_depth v) kvs))"
| "walk_depth (PList xs) = Suc (max_list (map walk_depth xs))"
| "walk_depth (PTuple xs) = Suc (max_list (map walk_depth xs))"
| "walk_depth obj = Suc 0"

section \<open>The toolset and its collaborators\<close>

text \<open>
  \<^verbatim>\<open>ComposioToolset\<close> extends a base toolset that is not part of this file. What the
  adapter uses of it, and of the utilities it imports, is carried by \<open>self\<close>:
  \<^item> \<open>self_entity_id\<close>: \<^verbatim>\<open>self.entity_id\<close>, the default entity;
  \<^item> \<open>validate_tools\<close>: \<^verbatim>\<open>self.validate_tools(apps=, actions=, tags=)\<close>, which returns
    nothing or raises;
  \<^item> \<open>get_action_schemas\<close>: \<^verbatim>\<open>self.get_action_schemas(actions=, apps=, tags=)\<close>, the tools
    selected by the filters, in order;
  \<^item> \<open>model_dump\<close>: \<^verbatim>\<open>tool.model_dump(exclude_none=True)\<close>, the tool's schema as a dict;
  \<^item> \<open>json_schema_to_model\<close>: \<^verbatim>\<open>json_schema_to_model(p).schema()\<close>, the parameters after
    normalisation, or the exception of either call;
  \<^item> \<open>execute_action\<close>: \<^verbatim>\<open>self.execute_action(action=Action(value=name), params=,
    entity_id=)\<close>, which returns the action's output or raises.
  The calls that reach the outside world take the state \<open>'s\<close> of that world and return
  the new one, so that the order and the number of the calls can be observed.
\<close>

record ('t, 's) toolset =
  self_entity_id :: string
  validate_tools ::
    "string list option \<Rightarrow> string list option \<Rightarrow> string list option \<Rightarrow> 's
      \<Rightarrow> error option \<times> 's"
  get_action_schemas ::
    "string list option \<Rightarrow> string list option \<Rightarrow> string list option \<Rightarrow> 's
      \<Rightarrow> (error + 't list) \<times> 's"
  model_dump :: "'t \<Rightarrow> dict"
  json_schema_to_model :: "pyval \<Rightarrow> error + dict"
  execute_action :: "string \<Rightarrow> pyval \<Rightarrow> string \<Rightarrow> 's \<Rightarrow> (error + pyval) \<times> 's"

section \<open>The schema adapter\<close>

text \<open>What the vendor's \<^verbatim>\<open>FunctionDeclaration(name=, description=, parameters=)\<close> and
  \<^verbatim>\<open>Tool(function_declarations=)\<close> are built from.\<close>

record function_declaration =
  fd_name :: pyval
  fd_description :: pyval
  fd_parameters :: dict

datatype tool = Tool (function_declarations: "function_declaration list")

text \<open>
  \<^verbatim>\<open>
  cleaned_properties = {}
  for prop_name, prop_schema in properties.items():
      cleaned_prop = {k: v for k, v in prop_schema.items() if k != "examples"}
      cleaned_properties[prop_name] = cleaned_prop
  \<close>
\<close>

fun clean_properties :: "dict \<Rightarrow> dict \<Rightarrow> error + dict" where
  "clean_properties [] cleaned_properties = Inr cleaned_properties"
| "clean_properties ((prop_name, prop_schema) # properties) cleaned_properties =
     (case items prop_schema of
        Inl e \<Rightarrow> Inl e
      | Inr kvs \<Rightarrow>
          clean_properties properties
            (dict_set prop_name
               (PDict (dict_comp (filter (\<lambda>(k, v). k \<noteq> ''examples'') kvs)))
               cleaned_properties))"

text \<open>
  \<^verbatim>\<open>
  def _wrap_tool(self, schema, entity_id=None):
      action = schema["name"]
      description = schema.get("description", schema["name"])
      parameters = json_schema_to_model(schema["parameters"])
      properties = parameters.schema().get("properties", {})
      ...
      cleaned_parameters = {
          "type": "object",
          "properties": cleaned_properties,
          "required": parameters.schema().get("required", []),
      }
      return FunctionDeclaration(name=action, description=description,
                                 parameters=cleaned_parameters)
  \<close>
  A missing key of \<^verbatim>\<open>schema\<close> raises \<^verbatim>\<open>KeyError\<close>.
\<close>

definition wrap_tool ::
  "('t, 's) toolset \<Rightarrow> dict \<Rightarrow> string option \<Rightarrow> error + function_declaration" where
  "wrap_tool self schema entity_id =
     (case dict_get schema ''name'' of
        None \<Rightarrow> Inl (KeyError ''name'')
      | Some action \<Rightarrow>
     (let description = dict_get_default schema ''description'' action in
      case dict_get schema ''parameters'' of
        None \<Rightarrow> Inl (KeyError ''parameters'')
      | Some raw \<Rightarrow>
     (case json_schema_to_model self raw of
        Inl e \<Rightarrow> Inl e
      | Inr parameters \<Rightarrow>
     (case items (dict_get_default parameters ''properties'' (PDict [])) of
        Inl e \<Rightarrow> Inl e
      | Inr properties \<Rightarrow>
     (case clean_properties properties [] of
        Inl e \<Rightarrow> Inl e
      | Inr cleaned_properties \<Rightarrow>
          Inr \<lparr>fd_name = action,
               fd_description = description,
               fd_parameters =
                 [(''type'', PStr ''object''),
                  (''properties'', PDict cleaned_properties),
                  (''required'', dict_get_default parameters ''required'' (PList []))]\<rparr>)))))"

section \<open>Tool listing\<close>

text \<open>The list comprehension of \<^verbatim>\<open>get_tool\<close>: one declaration per tool, in order; the
  first exception ends it.\<close>

fun wrap_tools ::
  "('t, 's) toolset \<Rightarrow> string option \<Rightarrow> 't list \<Rightarrow> error + function_declaration list" where
  "wrap_tools self entity_id [] = Inr []"
| "wrap_tools self entity_id (tool # tools) =
     (case wrap_tool self (model_dump self tool) entity_id of
        Inl e \<Rightarrow> Inl e
      | Inr fd \<Rightarrow>
          (case wrap_tools self entity_id tools of
             Inl e \<Rightarrow> Inl e
           | Inr fds \<Rightarrow> Inr (fd # fds)))"

text \<open>
  \<^verbatim>\<open>
  def get_tool(self, actions=None, apps=None, tags=None, entity_id=None):
      self.validate_tools(apps=apps, actions=actions, tags=tags)
      return Tool(function_declarations=[
          self._wrap_tool(schema=tool.model_dump(exclude_none=True),
                          entity_id=entity_id or self.entity_id)
          for tool in self.get_action_schemas(actions=actions, apps=apps, tags=tags)])
  \<close>
\<close>

definition get_tool ::
  "('t, 's) toolset \<Rightarrow> string list option \<Rightarrow> string list option \<Rightarrow> string list option
    \<Rightarrow> string option \<Rightarrow> 's \<Rightarrow> (error + tool) \<times> 's" where
  "get_tool self actions apps tags entity_id s =
     (case validate_tools self apps actions tags s of
        (Some e, s1) \<Rightarrow> (Inl e, s1)
      | (None, s1) \<Rightarrow>
          (case get_action_schemas self actions apps tags s1 of
             (Inl e, s2) \<Rightarrow> (Inl e, s2)
           | (Inr tools, s2) \<Rightarrow>
               (case wrap_tools self (Some (or_else entity_id (self_entity_id self))) tools of
                  Inl e \<Rightarrow> (Inl e, s2)
                | Inr fds \<Rightarrow> (Inr (Tool fds), s2))))"

text \<open>
  \<^verbatim>\<open>
  @te.deprecated("Use `ComposioToolSet.get_tools` instead")
  def get_actions(self, actions, entity_id=None):
      return self.get_tool(actions=actions, entity_id=entity_id)
  \<close>
  The decorator emits a \<^verbatim>\<open>DeprecationWarning\<close> with its message each time the method is
  called, then runs the method. The warnings emitted are the first component of the result.
\<close>

datatype warning = DeprecationWarning string

definition get_actions ::
  "('t, 's) toolset \<Rightarrow> string list \<Rightarrow> string option \<Rightarrow> 's
    \<Rightarrow> warning list \<times> (error + tool) \<times> 's" where
  "get_actions self actions entity_id s =
     ([DeprecationWarning ''Use `ComposioToolSet.get_tools` instead''],
      get_tool self (Some actions) None None entity_id s)"

section \<open>The dispatcher\<close>

text \<open>
  A function call of the model: \<^verbatim>\<open>function_call.name\<close> and \<^verbatim>\<open>function_call.args\<close>, the
  latter \<^verbatim>\<open>None\<close> when the model sent no arguments.

  The class defines \<^verbatim>\<open>execute_function_call\<close> twice; the second definition replaces the
  first when the class body is run, and is the method:
  \<^verbatim>\<open>
  def execute_function_call(self, function_call, entity_id=None):
      args = (convert_map_composite(function_call.args)
              if function_call.args is not None else {})
      return self.execute_action(
          action=Action(value=function_call.name),
          params=args,
          entity_id=entity_id or self.entity_id)
  \<close>
\<close>

record function_call =
  fc_name :: string
  fc_args :: pyval

definition execute_function_call ::
  "('t, 's) toolset \<Rightarrow> function_call \<Rightarrow> string option \<Rightarrow> 's \<Rightarrow> (error + pyval) \<times> 's" where
  "execute_function_call self function_call entity_id s =
     (let args = (if fc_args function_call \<noteq> PNone
                  then convert_map_composite (fc_args function_call)
                  else PDict [])
      in execute_action self (fc_name function_call) args
           (or_else entity_id (self_entity_id self)) s)"

text \<open>
  The response of the model. An element of \<^verbatim>\<open>content.parts\<close> is a \<^verbatim>\<open>Part\<close> or some other
  object; a \<^verbatim>\<open>Part\<close> carries a function call or none, \<open>None\<close> standing for every value of
  \<^verbatim>\<open>part.function_call\<close> that Python takes for false. The content of a candidate has a
  \<^verbatim>\<open>parts\<close> attribute or has none.
\<close>

datatype part = Part (function_call: "function_call option") | NotPart

datatype content = Content (parts: "part list") | NoParts

datatype candidate = Candidate (content: content)

datatype generation_response = GenerationResponse (candidates: "candidate list")

text \<open>
  \<^verbatim>\<open>
  def handle_response(self, response, entity_id=None):
      outputs = []
      for candidate in response.candidates:
          if hasattr(candidate.content, 'parts'):
              for part in candidate.content.parts:
                  if isinstance(part, Part) and part.function_call:
                      outputs.append(
                          self.execute_function_call(
                              function_call=part.function_call,
                              entity_id=entity_id or self.entity_id))
      return outputs
  \<close>
  The inner and the outer loop, with \<^verbatim>\<open>outputs\<close> as the accumulator. An exception of
  \<^verbatim>\<open>execute_function_call\<close> is not caught: it leaves both loops.
\<close>

fun handle_parts ::
  "('t, 's) toolset \<Rightarrow> string option \<Rightarrow> part list \<Rightarrow> pyval list \<Rightarrow> 's
    \<Rightarrow> (error + pyval list) \<times> 's" where
  "handle_parts self entity_id [] outputs s = (Inr outputs, s)"
| "handle_parts self entity_id (Part (Some fc) # rest) outputs s =
     (case execute_function_call self fc
             (Some (or_else entity_id (self_entity_id self))) s of
        (Inl e, s') \<Rightarrow> (Inl e, s')
      | (Inr output, s') \<Rightarrow> handle_parts self entity_id rest (outputs @ [output]) s')"
| "handle_parts self entity_id (p # rest) outputs s =
     handle_parts self entity_id rest outputs s"

fun handle_candidates ::
  "('t, 's) toolset \<Rightarrow> string option \<Rightarrow> candidate list \<Rightarrow> pyval list \<Rightarrow> 's
    \<Rightarrow> (error + pyval list) \<times> 's" where
  "handle_candidates self entity_id [] outputs s = (Inr outputs, s)"
| "handle_candidates self entity_id (Candidate (Content ps) # rest) outputs s =
     (case handle_parts self entity_id ps outputs s of
        (Inl e, s') \<Rightarrow> (Inl e, s')
      | (Inr outputs', s') \<Rightarrow> handle_candidates self entity_id rest outputs' s')"
| "handle_candidates self entity_id (Candidate NoParts # rest) outputs s =
     handle_candidates self entity_id rest outputs s"

definition handle_response ::
  "('t, 's) toolset \<Rightarrow> generation_response \<Rightarrow> string option \<Rightarrow> 's
    \<Rightarrow> (error + pyval list) \<times> 's" where
  "handle_response self response entity_id s =
     handle_candidates self entity_id (candidates response) [] s"

subsection \<open>What the dispatcher is specified to do\<close>

text \<open>The function calls of a response: those of the parts that carry one, candidates in
  the order of the response and parts in the order of their candidate.\<close>

fun part_calls :: "part list \<Rightarrow> function_call list" where
  "part_calls [] = []"
| "part_calls (Part (Some fc) # rest) = fc # part_calls rest"
| "part_calls (p # rest) = part_calls rest"

fun candidate_calls :: "candidate \<Rightarrow> function_call list" where
  "candidate_calls (Candidate (Content ps)) = part_calls ps"
| "candidate_calls (Candidate NoParts) = []"

definition function_calls :: "generation_response \<Rightarrow> function_call list" where
  "function_calls response = concat (map candidate_calls (candidates response))"

text \<open>The calls executed one after the other, each in the state the one before it left;
  the results in the order of the calls; the first failure ends the run and is the
  result.\<close>

fun execute_in_order ::
  "('t, 's) toolset \<Rightarrow> string option \<Rightarrow> function_call list \<Rightarrow> 's
    \<Rightarrow> (error + pyval list) \<times> 's" where
  "execute_in_order self entity_id [] s = (Inr [], s)"
| "execute_in_order self entity_id (fc # fcs) s =
     (case execute_function_call self fc entity_id s of
        (Inl e, s') \<Rightarrow> (Inl e, s')
      | (Inr output, s') \<Rightarrow>
          (case execute_in_order self entity_id fcs s' of
             (Inl e, s'') \<Rightarrow> (Inl e, s'')
           | (Inr outputs, s'') \<Rightarrow> (Inr (output # outputs), s'')))"

section \<open>What the schema adapter is specified to do\<close>

text \<open>A cleaned property is a plain dict with no key \<^verbatim>\<open>examples\<close>.\<close>

fun no_examples :: "pyval \<Rightarrow> bool" where
  "no_examples (PDict kvs) = (''examples'' \<notin> set (map fst kvs))"
| "no_examples obj = False"

text \<open>A cleaned property \<open>(n', c)\<close> comes from the property \<open>(n, p)\<close> of the normalised
  schema: it has the same name, and it is the items of \<open>p\<close> other than \<^verbatim>\<open>examples\<close>, each with
  its value and in the order of \<open>p\<close> (a mapping has no key twice).\<close>

fun cleaned_of :: "string \<times> pyval \<Rightarrow> string \<times> pyval \<Rightarrow> bool" where
  "cleaned_of (n, p) (n', c) =
     (n' = n \<and>
      (case items p of
         Inl e \<Rightarrow> False
       | Inr kvs \<Rightarrow>
           distinct (map fst kvs) \<longrightarrow> c = PDict (filter (\<lambda>(k, v). k \<noteq> ''examples'') kvs)))"

section \<open>A toolset to run the adapter on\<close>

text \<open>A stand-in for the collaborators, for evaluating the adapter on concrete inputs. The
  state of the world is the log of the actions executed, each with its parameters and
  entity; the action named \<open>FAIL\<close> raises and every other action returns its own name;
  a tool is its own dump; normalising the parameters returns the items of the dict given.\<close>

definition log_toolset :: "(dict, (string \<times> pyval \<times> string) list) toolset" where
  "log_toolset =
     \<lparr>self_entity_id = ''default'',
      validate_tools = (\<lambda>apps actions tags s. (None, s)),
      get_action_schemas = (\<lambda>actions apps tags s. (Inr [], s)),
      model_dump = (\<lambda>tool. tool),
      json_schema_to_model = (\<lambda>p. items p),
      execute_action =
        (\<lambda>name params entity s.
           (if name = ''FAIL'' then Inl (Raised name) else Inr (PStr name),
            s @ [(name, params, entity)]))\<rparr>"

text \<open>A tool schema whose one property carries \<^verbatim>\<open>examples\<close> and which has no description,
  and the declaration the adapter makes of it.\<close>

definition star_schema :: dict where
  "star_schema =
     [(''name'', PStr ''GITHUB_STAR''),
      (''parameters'',
       PDict [(''properties'',
               PDict [(''owner'',
                       PDict [(''type'', PStr ''string''),
                              (''examples'', PList [PStr ''octocat'']),
                              (''title'', PStr ''Owner'')])]),
              (''required'', PList [PStr ''owner''])])]"

definition star_declaration :: function_declaration where
  "star_declaration =
     \<lparr>fd_name = PStr ''GITHUB_STAR'',
      fd_description = PStr ''GITHUB_STAR'',
      fd_parameters =
        [(''type'', PStr ''object''),
         (''properties'',
          PDict [(''owner'', PDict [(''type'', PStr ''string''), (''title'', PStr ''Owner'')])]),
         (''required'', PList [PStr ''owner''])]\<rparr>"

section \<open>Dicts\<close>

lemma dict_set_map_fst:
  "map fst (dict_set k v d) = (if k \<in> set (map fst d) then map fst d else map fst d @ [k])"
  by (induction k v d rule: dict_set.induct) (simp_all del: set_map)

lemma dict_set_keys: "set (map fst (dict_set k v d)) = insert k (set (map fst d))"
  by (simp add: dict_set_map_fst insert_absorb del: set_map)

lemma dict_set_fresh: "k \<notin> set (map fst d) \<Longrightarrow> dict_set k v d = d @ [(k, v)]"
  by (induction d) auto

lemma dict_fill_keys:
  "set (map fst (dict_fill d kvs)) = set (map fst d) \<union> set (map fst kvs)"
  by (induction d kvs rule: dict_fill.induct) (simp_all add: dict_set_keys del: set_map)

text \<open>Filling a dict with items whose keys are new and pairwise different appends them.\<close>

lemma dict_fill_distinct:
  "distinct (map fst (d @ kvs)) \<Longrightarrow> dict_fill d kvs = d @ kvs"
proof (induction d kvs rule: dict_fill.induct)
  case (1 d)
  then show ?case by simp
next
  case (2 d k v kvs)
  from "2.prems" have fresh: "k \<notin> set (map fst d)" by auto
  then have step: "dict_set k v d = d @ [(k, v)]" by (rule dict_set_fresh)
  from "2.prems" have "distinct (map fst (dict_set k v d @ kvs))"
    by (simp add: step)
  then have "dict_fill (dict_set k v d) kvs = dict_set k v d @ kvs" by (rule "2.IH")
  then show ?case by (simp add: step)
qed

lemma dict_comp_keys: "set (map fst (dict_comp kvs)) = set (map fst kvs)"
  by (simp add: dict_comp_def dict_fill_keys del: set_map)

lemma dict_comp_distinct: "distinct (map fst kvs) \<Longrightarrow> dict_comp kvs = kvs"
  using dict_fill_distinct [of "[]" kvs] by (simp add: dict_comp_def)

section \<open>The walker and the recursion limit\<close>

lemma max_list_ge: "n \<in> set ns \<Longrightarrow> n \<le> max_list ns"
  by (induction ns) auto

lemma max_list_witness: "n < max_list ns \<Longrightarrow> \<exists>m\<in>set ns. n < m"
  by (induction ns) (auto simp: max_def split: if_splits)

lemma collect_all_Inr:
  "(\<And>x. x \<in> set xs \<Longrightarrow> f x = Inr (g x)) \<Longrightarrow> collect (map f xs) = Inr (map g xs)"
  by (induction xs) auto

lemma collect_error_mem: "collect rs = Inl e \<Longrightarrow> Inl e \<in> set rs"
  by (induction rs) (simp_all split: sum.splits)

lemma collect_first_error:
  "Inl e \<in> set rs \<Longrightarrow> \<forall>e'. Inl e' \<in> set rs \<longrightarrow> e' = e \<Longrightarrow> collect rs = Inl e"
proof (induction rs)
  case Nil
  then show ?case by simp
next
  case (Cons r rs)
  show ?case
  proof (cases r)
    case (Inl e')
    with Cons.prems(2) have "e' = e" by (metis list.set_intros(1))
    with Inl show ?thesis by simp
  next
    case (Inr x)
    with Cons.prems(1) have "Inl e \<in> set rs" by (metis set_ConsD sum.distinct(1))
    moreover have "\<forall>e'. Inl e' \<in> set rs \<longrightarrow> e' = e"
      using Cons.prems(2) by (metis list.set_intros(2))
    ultimately have "collect rs = Inl e" by (rule Cons.IH)
    with Inr show ?thesis by simp
  qed
qed

text \<open>With room for the nesting of the value, the bounded walker returns what the walker
  returns.\<close>

lemma lim_enough:
  "walk_depth x \<le> n \<Longrightarrow> convert_map_composite_lim n x = Inr (convert_map_composite x)"
proof (induction n arbitrary: x)
  case 0
  then show ?case by (cases x) simp_all
next
  case (Suc n)
  have seq: "collect (map (convert_map_composite_lim n) xs) = Inr (map convert_map_composite xs)"
    if shallow: "max_list (map walk_depth xs) \<le> n" for xs
  proof (rule collect_all_Inr)
    fix y assume "y \<in> set xs"
    then have "walk_depth y \<le> max_list (map walk_depth xs)" by (simp add: max_list_ge)
    with shallow have "walk_depth y \<le> n" by simp
    then show "convert_map_composite_lim n y = Inr (convert_map_composite y)" by (rule Suc.IH)
  qed
  show ?case
  proof (cases x)
    case (PList xs)
    with Suc.prems have "max_list (map walk_depth xs) \<le> n" by simp
    then show ?thesis using PList by (simp add: seq)
  next
    case (PTuple xs)
    with Suc.prems have "max_list (map walk_depth xs) \<le> n" by simp
    then show ?thesis using PTuple by (simp add: seq)
  next
    case (PMapComposite kvs)
    have "\<And>p. p \<in> set kvs \<Longrightarrow>
        (case p of (k, v) \<Rightarrow> case convert_map_composite_lim n v of
            Inl e \<Rightarrow> Inl e | Inr v' \<Rightarrow> Inr (k, v'))
         = Inr (case p of (k, v) \<Rightarrow> (k, convert_map_composite v))"
    proof -
      fix p assume p: "p \<in> set kvs"
      obtain k v where kv: "p = (k, v)" by (cases p)
      with p have "walk_depth v \<in> set (map (\<lambda>(k, v). walk_depth v) kvs)" by force
      then have "walk_depth v \<le> max_list (map (\<lambda>(k, v). walk_depth v) kvs)"
        by (rule max_list_ge)
      with Suc.prems PMapComposite have "walk_depth v \<le> n" by simp
      then have "convert_map_composite_lim n v = Inr (convert_map_composite v)" by (rule Suc.IH)
      with kv show "(case p of (k, v) \<Rightarrow> case convert_map_composite_lim n v of
            Inl e \<Rightarrow> Inl e | Inr v' \<Rightarrow> Inr (k, v'))
         = Inr (case p of (k, v) \<Rightarrow> (k, convert_map_composite v))" by simp
    qed
    then have "collect (map (\<lambda>(k, v). case convert_map_composite_lim n v of
            Inl e \<Rightarrow> Inl e | Inr v' \<Rightarrow> Inr (k, v')) kvs)
       = Inr (map (\<lambda>(k, v). (k, convert_map_composite v)) kvs)"
      by (rule collect_all_Inr)
    with PMapComposite show ?thesis by simp
  qed simp_all
qed

text \<open>The only exception of the bounded walker is the interpreter's.\<close>

lemma lim_error:
  "convert_map_composite_lim n x = Inl e \<Longrightarrow> e = RecursionError"
proof (induction n arbitrary: x e)
  case 0
  then show ?case by simp
next
  case (Suc n)
  have seq: "\<exists>y. convert_map_composite_lim n y = Inl e"
    if "collect (map (convert_map_composite_lim n) xs) = Inl e" for xs
  proof -
    from that have "Inl e \<in> set (map (convert_map_composite_lim n) xs)"
      by (rule collect_error_mem)
    then show ?thesis by auto
  qed
  show ?case
  proof (cases x)
    case (PList xs)
    with Suc.prems have "collect (map (convert_map_composite_lim n) xs) = Inl e"
      by (simp split: sum.splits)
    then obtain y where "convert_map_composite_lim n y = Inl e" using seq by blast
    then show ?thesis by (rule Suc.IH)
  next
    case (PTuple xs)
    with Suc.prems have "collect (map (convert_map_composite_lim n) xs) = Inl e"
      by (simp split: sum.splits)
    then obtain y where "convert_map_composite_lim n y = Inl e" using seq by blast
    then show ?thesis by (rule Suc.IH)
  next
    case (PMapComposite kvs)
    let ?f = "\<lambda>(k, v). case convert_map_composite_lim n v of
            Inl e \<Rightarrow> Inl e | Inr v' \<Rightarrow> Inr (k, v')"
    from Suc.prems PMapComposite have "collect (map ?f kvs) = Inl e"
      by (simp split: sum.splits)
    then have "Inl e \<in> set (map ?f kvs)" by (rule collect_error_mem)
    then have "\<exists>p\<in>set kvs. Inl e = ?f p" by (simp only: set_map image_iff)
    then obtain p where p: "p \<in> set kvs" "?f p = Inl e" by metis
    obtain k v where kv: "p = (k, v)" by (cases p)
    from p(2) kv have "convert_map_composite_lim n v = Inl e"
      by (simp split: sum.splits)
    then show ?thesis by (rule Suc.IH)
  qed (use Suc.prems in simp_all)
qed

text \<open>Without room for the nesting of the value, the bounded walker raises.\<close>

lemma lim_short:
  "n < walk_depth x \<Longrightarrow> convert_map_composite_lim n x = Inl RecursionError"
proof (induction n arbitrary: x)
  case 0
  then show ?case by simp
next
  case (Suc n)
  have seq: "collect (map (convert_map_composite_lim n) xs) = Inl RecursionError"
    if deep: "n < max_list (map walk_depth xs)" for xs
  proof -
    from deep obtain m where "m \<in> set (map walk_depth xs)" "n < m"
      using max_list_witness by blast
    then obtain y where y: "y \<in> set xs" "n < walk_depth y" by auto
    from y(2) have "convert_map_composite_lim n y = Inl RecursionError" by (rule Suc.IH)
    then have "Inl RecursionError = convert_map_composite_lim n y" by (rule sym)
    then have "Inl RecursionError \<in> convert_map_composite_lim n ` set xs"
      using y(1) by (rule image_eqI)
    then have "Inl RecursionError \<in> set (map (convert_map_composite_lim n) xs)"
      by (simp only: set_map)
    moreover have
      "\<forall>e'. Inl e' \<in> set (map (convert_map_composite_lim n) xs) \<longrightarrow> e' = RecursionError"
      by (auto dest: lim_error [OF sym])
    ultimately show ?thesis by (rule collect_first_error)
  qed
  show ?case
  proof (cases x)
    case (PList xs)
    with Suc.prems have "n < max_list (map walk_depth xs)" by simp
    then have "collect (map (convert_map_composite_lim n) xs) = Inl RecursionError" by (rule seq)
    with PList show ?thesis by simp
  next
    case (PTuple xs)
    with Suc.prems have "n < max_list (map walk_depth xs)" by simp
    then have "collect (map (convert_map_composite_lim n) xs) = Inl RecursionError" by (rule seq)
    with PTuple show ?thesis by simp
  next
    case (PMapComposite kvs)
    let ?f = "\<lambda>(k, v). case convert_map_composite_lim n v of
            Inl e \<Rightarrow> Inl e | Inr v' \<Rightarrow> Inr (k, v')"
    from Suc.prems PMapComposite have "n < max_list (map (\<lambda>(k, v). walk_depth v) kvs)"
      by simp
    then obtain m where "m \<in> set (map (\<lambda>(k, v). walk_depth v) kvs)" "n < m"
      using max_list_witness by blast
    then obtain k v where kv: "(k, v) \<in> set kvs" "n < walk_depth v" by auto
    from kv(2) have "convert_map_composite_lim n v = Inl RecursionError" by (rule Suc.IH)
    then have fkv: "Inl RecursionError = ?f (k, v)" by simp
    have "Inl RecursionError \<in> ?f ` set kvs" using fkv kv(1) by (rule image_eqI)
    then have "Inl RecursionError \<in> set (map ?f kvs)" by (simp only: set_map)
    moreover have "\<forall>e'. Inl e' \<in> set (map ?f kvs) \<longrightarrow> e' = RecursionError"
    proof (intro allI impI)
      fix e' assume "Inl e' \<in> set (map ?f kvs)"
      then have "\<exists>p\<in>set kvs. Inl e' = ?f p" by (simp only: set_map image_iff)
      then obtain p where p: "p \<in> set kvs" "?f p = Inl e'" by metis
      obtain k' v' where "p = (k', v')" by (cases p)
      with p(2) have "convert_map_composite_lim n v' = Inl e'" by (simp split: sum.splits)
      then show "e' = RecursionError" by (rule lim_error)
    qed
    ultimately have "collect (map ?f kvs) = Inl RecursionError" by (rule collect_first_error)
    with PMapComposite show ?thesis by simp
  qed (use Suc.prems in simp_all)
qed

section \<open>The dispatcher runs the calls in order\<close>

lemma execute_in_order_append:
  "execute_in_order self eid (xs @ ys) s =
     (case execute_in_order self eid xs s of
        (Inl e, s') \<Rightarrow> (Inl e, s')
      | (Inr outs, s') \<Rightarrow>
          (case execute_in_order self eid ys s' of
             (Inl e, s'') \<Rightarrow> (Inl e, s'')
           | (Inr outs', s'') \<Rightarrow> (Inr (outs @ outs'), s'')))"
  by (induction xs arbitrary: s) (simp_all split: prod.splits sum.splits)

lemma execute_in_order_length:
  "execute_in_order self eid fcs s = (Inr outs, s') \<Longrightarrow> length outs = length fcs"
  by (induction fcs arbitrary: s outs) (auto split: prod.splits sum.splits)

text \<open>The inner loop appends to \<^verbatim>\<open>outputs\<close> the results of the calls of its parts.\<close>

lemma handle_parts_in_order:
  "handle_parts self eid ps outputs s =
     (case execute_in_order self (Some (or_else eid (self_entity_id self))) (part_calls ps) s of
        (Inl e, s') \<Rightarrow> (Inl e, s')
      | (Inr outs, s') \<Rightarrow> (Inr (outputs @ outs), s'))"
  by (induction self eid ps outputs s rule: handle_parts.induct)
     (simp_all split: prod.splits sum.splits)

lemma handle_candidates_in_order:
  "handle_candidates self eid cs outputs s =
     (case execute_in_order self (Some (or_else eid (self_entity_id self)))
             (concat (map candidate_calls cs)) s of
        (Inl e, s') \<Rightarrow> (Inl e, s')
      | (Inr outs, s') \<Rightarrow> (Inr (outputs @ outs), s'))"
  by (induction self eid cs outputs s rule: handle_candidates.induct)
     (simp_all add: handle_parts_in_order execute_in_order_append
        split: prod.splits sum.splits)

lemma handle_response_in_order:
  "handle_response self response eid s =
     execute_in_order self (Some (or_else eid (self_entity_id self)))
       (function_calls response) s"
  by (simp add: handle_response_def function_calls_def handle_candidates_in_order
      split: prod.splits sum.splits)

lemma part_calls_append: "part_calls (ps @ qs) = part_calls ps @ part_calls qs"
  by (induction ps rule: part_calls.induct) simp_all

text \<open>A candidate without \<^verbatim>\<open>parts\<close>, an element that is no \<^verbatim>\<open>Part\<close> and a \<^verbatim>\<open>Part\<close> without a
  function call contribute no call.\<close>

lemma function_calls_skip_candidate:
  "function_calls (GenerationResponse (cs @ Candidate NoParts # cs'))
     = function_calls (GenerationResponse (cs @ cs'))"
  by (simp add: function_calls_def)

lemma function_calls_skip_part:
  "p = NotPart \<or> p = Part None \<Longrightarrow>
   function_calls (GenerationResponse (cs @ Candidate (Content (ps @ p # ps')) # cs'))
     = function_calls (GenerationResponse (cs @ Candidate (Content (ps @ ps')) # cs'))"
  by (auto simp: function_calls_def part_calls_append)

section \<open>The schema adapter cleans every property\<close>

lemma dict_set_subset: "set (dict_set k v d) \<subseteq> insert (k, v) (set d)"
  by (induction k v d rule: dict_set.induct) auto

lemma filter_keys_no_examples:
  "''examples'' \<notin> set (map fst (dict_comp (filter (\<lambda>(k, v). k \<noteq> ''examples'') kvs)))"
  by (simp only: dict_comp_keys) auto

lemma clean_properties_no_examples:
  "clean_properties props acc = Inr cleaned \<Longrightarrow>
   \<forall>(n, c)\<in>set acc. no_examples c \<Longrightarrow> \<forall>(n, c)\<in>set cleaned. no_examples c"
proof (induction props acc rule: clean_properties.induct)
  case (1 acc)
  then show ?case by simp
next
  case (2 prop_name prop_schema properties acc)
  from "2.prems"(1) obtain kvs where kvs: "items prop_schema = Inr kvs"
    by (cases "items prop_schema") simp_all
  let ?c = "PDict (dict_comp (filter (\<lambda>(k, v). k \<noteq> ''examples'') kvs))"
  from "2.prems"(1) kvs
  have run: "clean_properties properties (dict_set prop_name ?c acc) = Inr cleaned" by simp
  have "no_examples ?c" using filter_keys_no_examples [of kvs] by simp
  with "2.prems"(2) dict_set_subset [of prop_name ?c acc]
  have "\<forall>(n, c)\<in>set (dict_set prop_name ?c acc). no_examples c" by auto
  with "2.IH" [OF kvs run] show ?case .
qed

lemma clean_properties_distinct:
  "clean_properties props acc = Inr cleaned \<Longrightarrow> distinct (map fst (acc @ props)) \<Longrightarrow>
   \<exists>new. cleaned = acc @ new \<and> list_all2 cleaned_of props new"
proof (induction props acc rule: clean_properties.induct)
  case (1 acc)
  then show ?case by simp
next
  case (2 prop_name prop_schema properties acc)
  from "2.prems"(1) obtain kvs where kvs: "items prop_schema = Inr kvs"
    by (cases "items prop_schema") simp_all
  let ?c = "PDict (dict_comp (filter (\<lambda>(k, v). k \<noteq> ''examples'') kvs))"
  from "2.prems"(1) kvs
  have run: "clean_properties properties (dict_set prop_name ?c acc) = Inr cleaned" by simp
  from "2.prems"(2) have "prop_name \<notin> set (map fst acc)" by auto
  then have step: "dict_set prop_name ?c acc = acc @ [(prop_name, ?c)]" by (rule dict_set_fresh)
  from "2.prems"(2) have "distinct (map fst (dict_set prop_name ?c acc @ properties))"
    by (simp add: step)
  from "2.IH" [OF kvs run this] obtain new
    where new: "cleaned = dict_set prop_name ?c acc @ new" "list_all2 cleaned_of properties new"
    by blast
  have "distinct (map fst kvs) \<longrightarrow> ?c = PDict (filter (\<lambda>(k, v). k \<noteq> ''examples'') kvs)"
    by (simp add: dict_comp_distinct distinct_map_filter)
  with kvs have "cleaned_of (prop_name, prop_schema) (prop_name, ?c)" by simp
  with new(2) have "list_all2 cleaned_of ((prop_name, prop_schema) # properties)
      ((prop_name, ?c) # new)" by simp
  moreover from new(1) have "cleaned = acc @ (prop_name, ?c) # new" by (simp add: step)
  ultimately show ?case by blast
qed

section \<open>Properties of the response walker\<close>

text \<open>
  Claim C2. The walker has three cases. A vendor map becomes a plain dict with the same
  keys in the same order, each value walked (a mapping has no key twice, which is the
  hypothesis on \<open>kvs\<close>); a list or a tuple becomes a list of the walked elements in the
  same order; any other value, a plain dict included, is returned as it is. The walker is
  a total function: it is defined by recursion on the value, which is a finite tree.
\<close>

theorem convert_map_composite_cases:
  "(distinct (map fst kvs) \<longrightarrow>
      convert_map_composite (PMapComposite kvs) =
        PDict (map (\<lambda>(k, v). (k, convert_map_composite v)) kvs))
   \<and> convert_map_composite (PList xs) = PList (map convert_map_composite xs)
   \<and> convert_map_composite (PTuple ys) = PList (map convert_map_composite ys)
   \<and> (\<not> is_MapComposite obj \<and> \<not> is_list_or_tuple obj \<longrightarrow> convert_map_composite obj = obj)"
proof (intro conjI impI)
  assume d: "distinct (map fst kvs)"
  have keys: "map fst (map (\<lambda>(k, v). (k, convert_map_composite v)) kvs) = map fst kvs"
    by (induction kvs) auto
  from d have "distinct (map fst (map (\<lambda>(k, v). (k, convert_map_composite v)) kvs))"
    by (simp only: keys)
  then have "dict_comp (map (\<lambda>(k, v). (k, convert_map_composite v)) kvs)
      = map (\<lambda>(k, v). (k, convert_map_composite v)) kvs"
    by (rule dict_comp_distinct)
  then show "convert_map_composite (PMapComposite kvs) =
        PDict (map (\<lambda>(k, v). (k, convert_map_composite v)) kvs)"
    by simp
next
  show "convert_map_composite (PList xs) = PList (map convert_map_composite xs)" by simp
next
  show "convert_map_composite (PTuple ys) = PList (map convert_map_composite ys)" by simp
next
  assume "\<not> is_MapComposite obj \<and> \<not> is_list_or_tuple obj"
  then show "convert_map_composite obj = obj" by (cases obj) simp_all
qed

theorem convert_map_composite_cases_witness:
  "distinct (map fst [(''a'', PMapComposite [(''b'', PList [PInt 1, PInt 2, PInt 3])])])
   \<and> convert_map_composite
        (PMapComposite [(''a'', PMapComposite [(''b'', PList [PInt 1, PInt 2, PInt 3])])])
      = PDict [(''a'', PDict [(''b'', PList [PInt 1, PInt 2, PInt 3])])]
   \<and> convert_map_composite (PTuple [PInt 1, PStr ''x'']) = PList [PInt 1, PStr ''x'']
   \<and> \<not> is_MapComposite (PDict [(''k'', PNone)]) \<and> \<not> is_list_or_tuple (PDict [(''k'', PNone)])
   \<and> convert_map_composite (PDict [(''k'', PNone)]) = PDict [(''k'', PNone)]"
  using convert_map_composite_cases
    [of "[(''a'', PMapComposite [(''b'', PList [PInt 1, PInt 2, PInt 3])])]"
        "[]" "[PInt 1, PStr ''x'']" "PDict [(''k'', PNone)]"]
    convert_map_composite_cases [of "[(''b'', PList [PInt 1, PInt 2, PInt 3])]" "[]" "[]" PNone]
  by simp

text \<open>
  Claim C8. Walking a value that has been walked changes nothing. This holds for every
  value, so for every plain tree of mappings, sequences and scalars: the result of a walk
  has a list where the walker looks for a list or a tuple, a plain dict where it looks for
  a vendor map, and the walker leaves both as they are.
\<close>

theorem convert_map_composite_idempotent:
  "convert_map_composite (convert_map_composite x) = convert_map_composite x"
  by (induction x rule: convert_map_composite.induct) simp_all

text \<open>
  Claim C10. A plain dict is returned unchanged and its values are not walked: a vendor
  map that is a value of a plain dict stays a vendor map, at the top and below a list.
\<close>

theorem convert_map_composite_plain_dict:
  "convert_map_composite (PDict kvs) = PDict kvs
   \<and> convert_map_composite (PDict [(k, PMapComposite m)]) = PDict [(k, PMapComposite m)]
   \<and> convert_map_composite (PList [PDict [(k, PMapComposite m)]])
        = PList [PDict [(k, PMapComposite m)]]"
  by simp

text \<open>
  Claim C6 says that the walker has a depth cap of its own and fails with
  \<open>MalformedResponseError\<close> beyond it. The source has no cap and raises no such error: with
  room for two nested activations, a list nested three deep ends in the interpreter's
  \<open>RecursionError\<close>.
\<close>

theorem no_depth_cap_counterexample:
  "convert_map_composite_lim (Suc (Suc 0)) (PList [PList [PList []]]) = Inl RecursionError
   \<and> convert_map_composite_lim (Suc (Suc 0)) (PList [PList [PList []]])
        \<noteq> Inl MalformedResponseError"
  by simp

text \<open>
  Claim C6, as the code has it. The walker never fails with \<open>MalformedResponseError\<close>.
  Whatever the nesting, it returns the walked value when the interpreter has room for the
  nesting, and the interpreter's \<open>RecursionError\<close> leaves it when the nesting is deeper than
  the room.
\<close>

theorem walker_recursion_limit:
  "convert_map_composite_lim n x \<noteq> Inl MalformedResponseError
   \<and> (walk_depth x \<le> n \<longrightarrow> convert_map_composite_lim n x = Inr (convert_map_composite x))
   \<and> (n < walk_depth x \<longrightarrow> convert_map_composite_lim n x = Inl RecursionError)"
proof (intro conjI impI)
  show "convert_map_composite_lim n x \<noteq> Inl MalformedResponseError"
  proof
    assume "convert_map_composite_lim n x = Inl MalformedResponseError"
    then have "MalformedResponseError = RecursionError" by (rule lim_error)
    then show False by simp
  qed
qed (simp_all add: lim_enough lim_short)

theorem walker_recursion_limit_witness:
  "walk_depth (PList [PList [PList []]]) \<le> Suc (Suc (Suc 0))
   \<and> convert_map_composite_lim (Suc (Suc (Suc 0))) (PList [PList [PList []]])
        = Inr (PList [PList [PList []]])
   \<and> Suc (Suc 0) < walk_depth (PList [PList [PList []]])
   \<and> convert_map_composite_lim (Suc (Suc 0)) (PList [PList [PList []]]) = Inl RecursionError"
  using walker_recursion_limit [of "Suc (Suc (Suc 0))" "PList [PList [PList []]]"]
    walker_recursion_limit [of "Suc (Suc 0)" "PList [PList [PList []]]"]
  by simp

section \<open>Properties of the dispatcher\<close>

text \<open>
  Claim C4. A function call whose \<^verbatim>\<open>args\<close> is \<^verbatim>\<open>None\<close> is executed as the same call with
  the empty mapping for \<^verbatim>\<open>args\<close>, plain or vendor: the action receives the empty dict as
  its parameters. The walker is not applied to \<^verbatim>\<open>None\<close>, on which it would return
  \<^verbatim>\<open>None\<close> and not the empty dict.
\<close>

theorem execute_function_call_no_args:
  "execute_function_call self \<lparr>fc_name = name, fc_args = PNone\<rparr> eid s
     = execute_action self name (PDict []) (or_else eid (self_entity_id self)) s
   \<and> execute_function_call self \<lparr>fc_name = name, fc_args = PNone\<rparr> eid s
     = execute_function_call self \<lparr>fc_name = name, fc_args = PDict []\<rparr> eid s
   \<and> execute_function_call self \<lparr>fc_name = name, fc_args = PNone\<rparr> eid s
     = execute_function_call self \<lparr>fc_name = name, fc_args = PMapComposite []\<rparr> eid s
   \<and> convert_map_composite PNone \<noteq> PDict []"
  by (simp add: execute_function_call_def dict_comp_def)

text \<open>
  Claim C3. \<^verbatim>\<open>handle_response\<close> returns the results of \<^verbatim>\<open>execute_function_call\<close> on the
  function calls of the response, candidates in the order of the response and parts in
  the order of their candidate, each call run once and after the one before it. A response
  without function calls gives the empty list. When the run succeeds there is one result
  per function call. A candidate whose content has no \<^verbatim>\<open>parts\<close>, an element that is no
  \<^verbatim>\<open>Part\<close> and a \<^verbatim>\<open>Part\<close> without a function call are passed over: the response without
  them gives the same result.
\<close>

theorem handle_response_results:
  "handle_response self response eid s =
     execute_in_order self (Some (or_else eid (self_entity_id self)))
       (function_calls response) s
   \<and> (function_calls response = [] \<longrightarrow> handle_response self response eid s = (Inr [], s))
   \<and> (handle_response self response eid s = (Inr outs, s') \<longrightarrow>
        length outs = length (function_calls response))
   \<and> handle_response self (GenerationResponse (cs @ Candidate NoParts # cs')) eid s
       = handle_response self (GenerationResponse (cs @ cs')) eid s
   \<and> (p = NotPart \<or> p = Part None \<longrightarrow>
        handle_response self
          (GenerationResponse (cs @ Candidate (Content (ps @ p # ps')) # cs')) eid s
        = handle_response self
          (GenerationResponse (cs @ Candidate (Content (ps @ ps')) # cs')) eid s)"
proof (intro conjI impI)
  show "handle_response self response eid s =
     execute_in_order self (Some (or_else eid (self_entity_id self)))
       (function_calls response) s"
    by (rule handle_response_in_order)
next
  assume "function_calls response = []"
  then show "handle_response self response eid s = (Inr [], s)"
    by (simp add: handle_response_in_order)
next
  assume "handle_response self response eid s = (Inr outs, s')"
  then have "execute_in_order self (Some (or_else eid (self_entity_id self)))
       (function_calls response) s = (Inr outs, s')"
    by (simp only: handle_response_in_order)
  then show "length outs = length (function_calls response)"
    by (rule execute_in_order_length)
next
  show "handle_response self (GenerationResponse (cs @ Candidate NoParts # cs')) eid s
       = handle_response self (GenerationResponse (cs @ cs')) eid s"
    by (simp only: handle_response_in_order function_calls_skip_candidate)
next
  assume "p = NotPart \<or> p = Part None"
  then show "handle_response self
          (GenerationResponse (cs @ Candidate (Content (ps @ p # ps')) # cs')) eid s
        = handle_response self
          (GenerationResponse (cs @ Candidate (Content (ps @ ps')) # cs')) eid s"
    by (simp only: handle_response_in_order function_calls_skip_part)
qed

theorem handle_response_results_witness:
  "handle_response log_toolset
     (GenerationResponse
        [Candidate (Content [Part None,
           Part (Some \<lparr>fc_name = ''A'', fc_args = PMapComposite [(''n'', PInt 1)]\<rparr>), NotPart]),
         Candidate NoParts,
         Candidate (Content [Part (Some \<lparr>fc_name = ''B'', fc_args = PNone\<rparr>)])]) None []
     = (Inr [PStr ''A'', PStr ''B''],
        [(''A'', PDict [(''n'', PInt 1)], ''default''), (''B'', PDict [], ''default'')])
   \<and> length [PStr ''A'', PStr ''B''] = length (function_calls
     (GenerationResponse
        [Candidate (Content [Part None,
           Part (Some \<lparr>fc_name = ''A'', fc_args = PMapComposite [(''n'', PInt 1)]\<rparr>), NotPart]),
         Candidate NoParts,
         Candidate (Content [Part (Some \<lparr>fc_name = ''B'', fc_args = PNone\<rparr>)])]))
   \<and> function_calls (GenerationResponse [Candidate (Content [Part None]), Candidate NoParts]) = []
   \<and> handle_response log_toolset
         (GenerationResponse [Candidate (Content [Part None]), Candidate NoParts]) None []
       = (Inr [], [])
   \<and> (NotPart = NotPart \<or> NotPart = Part None)
   \<and> handle_response log_toolset
         (GenerationResponse ([] @ Candidate (Content ([] @ NotPart # [])) # [])) None []
       = handle_response log_toolset
         (GenerationResponse ([] @ Candidate (Content ([] @ [])) # [])) None []"
  using handle_response_results
    [of log_toolset
      "GenerationResponse
        [Candidate (Content [Part None,
           Part (Some \<lparr>fc_name = ''A'', fc_args = PMapComposite [(''n'', PInt 1)]\<rparr>), NotPart]),
         Candidate NoParts,
         Candidate (Content [Part (Some \<lparr>fc_name = ''B'', fc_args = PNone\<rparr>)])]"
      None "[]" "[PStr ''A'', PStr ''B'']"
      "[(''A'', PDict [(''n'', PInt 1)], ''default''), (''B'', PDict [], ''default'')]"
      "[]" "[]" NotPart "[]" "[]"]
    handle_response_results
    [of log_toolset
      "GenerationResponse [Candidate (Content [Part None]), Candidate NoParts]"
      None "[]" "[]" "[]" "[]" "[]" NotPart "[]" "[]"]
  by (simp add: handle_response_def function_calls_def execute_function_call_def
        log_toolset_def or_else_def dict_comp_def)

text \<open>
  Claim C5. The calls are made one after the other. When the calls before the k-th have
  succeeded and the k-th fails, \<^verbatim>\<open>handle_response\<close> ends with the error of the k-th call
  and with the world in the state that call left: no later call is made, and the results
  collected so far are not returned.
\<close>

theorem handle_response_failure_aborts:
  assumes "function_calls response = before @ fc # rest"
    and "execute_in_order self (Some (or_else eid (self_entity_id self))) before s
           = (Inr outs, s1)"
    and "execute_function_call self fc (Some (or_else eid (self_entity_id self))) s1
           = (Inl e, s2)"
  shows "handle_response self response eid s = (Inl e, s2)"
  using assms by (simp add: handle_response_in_order execute_in_order_append)

theorem handle_response_failure_aborts_witness:
  "function_calls
     (GenerationResponse
        [Candidate (Content
           [Part (Some \<lparr>fc_name = ''A'', fc_args = PNone\<rparr>),
            Part (Some \<lparr>fc_name = ''FAIL'', fc_args = PNone\<rparr>),
            Part (Some \<lparr>fc_name = ''C'', fc_args = PNone\<rparr>)])])
     = [\<lparr>fc_name = ''A'', fc_args = PNone\<rparr>]
         @ \<lparr>fc_name = ''FAIL'', fc_args = PNone\<rparr> # [\<lparr>fc_name = ''C'', fc_args = PNone\<rparr>]
   \<and> execute_in_order log_toolset (Some (or_else None (self_entity_id log_toolset)))
         [\<lparr>fc_name = ''A'', fc_args = PNone\<rparr>] []
       = (Inr [PStr ''A''], [(''A'', PDict [], ''default'')])
   \<and> execute_function_call log_toolset \<lparr>fc_name = ''FAIL'', fc_args = PNone\<rparr>
         (Some (or_else None (self_entity_id log_toolset))) [(''A'', PDict [], ''default'')]
       = (Inl (Raised ''FAIL''),
          [(''A'', PDict [], ''default''), (''FAIL'', PDict [], ''default'')])
   \<and> handle_response log_toolset
        (GenerationResponse
           [Candidate (Content
              [Part (Some \<lparr>fc_name = ''A'', fc_args = PNone\<rparr>),
               Part (Some \<lparr>fc_name = ''FAIL'', fc_args = PNone\<rparr>),
               Part (Some \<lparr>fc_name = ''C'', fc_args = PNone\<rparr>)])]) None []
       = (Inl (Raised ''FAIL''),
          [(''A'', PDict [], ''default''), (''FAIL'', PDict [], ''default'')])"
proof -
  let ?r = "GenerationResponse
        [Candidate (Content
           [Part (Some \<lparr>fc_name = ''A'', fc_args = PNone\<rparr>),
            Part (Some \<lparr>fc_name = ''FAIL'', fc_args = PNone\<rparr>),
            Part (Some \<lparr>fc_name = ''C'', fc_args = PNone\<rparr>)])]"
  have calls: "function_calls ?r
     = [\<lparr>fc_name = ''A'', fc_args = PNone\<rparr>]
         @ \<lparr>fc_name = ''FAIL'', fc_args = PNone\<rparr> # [\<lparr>fc_name = ''C'', fc_args = PNone\<rparr>]"
    by (simp add: function_calls_def)
  have before: "execute_in_order log_toolset (Some (or_else None (self_entity_id log_toolset)))
         [\<lparr>fc_name = ''A'', fc_args = PNone\<rparr>] []
       = (Inr [PStr ''A''], [(''A'', PDict [], ''default'')])"
    by (simp add: execute_function_call_def log_toolset_def or_else_def)
  have failing: "execute_function_call log_toolset \<lparr>fc_name = ''FAIL'', fc_args = PNone\<rparr>
         (Some (or_else None (self_entity_id log_toolset))) [(''A'', PDict [], ''default'')]
       = (Inl (Raised ''FAIL''),
          [(''A'', PDict [], ''default''), (''FAIL'', PDict [], ''default'')])"
    by (simp add: execute_function_call_def log_toolset_def or_else_def)
  from handle_response_failure_aborts [OF calls before failing] calls before failing
  show ?thesis by (intro conjI)
qed

section \<open>Properties of the tool listing\<close>

text \<open>
  Claim C9. The deprecated \<^verbatim>\<open>get_actions(actions, entity_id)\<close> emits its deprecation
  warning and returns what \<^verbatim>\<open>get_tool(actions=actions, entity_id=entity_id)\<close> returns,
  result and state of the world alike.
\<close>

theorem get_actions_forwards:
  "get_actions self actions eid s =
     ([DeprecationWarning ''Use `ComposioToolSet.get_tools` instead''],
      get_tool self (Some actions) None None eid s)"
  by (simp add: get_actions_def)

section \<open>Properties of the schema adapter\<close>

text \<open>
  Claim C1. Whenever \<^verbatim>\<open>_wrap_tool\<close> returns a declaration, its parameters hold under
  \<^verbatim>\<open>properties\<close> a dict of cleaned properties, none of which has a key \<^verbatim>\<open>examples\<close>; each
  cleaned property stands for the property of the same name and position of the
  normalised schema and keeps all its other items, values and order included; and its
  parameters hold under \<^verbatim>\<open>required\<close> the \<^verbatim>\<open>required\<close> of the normalised schema, or the empty
  list when the normalised schema has none.
\<close>

theorem wrap_tool_parameters:
  assumes "wrap_tool self schema eid = Inr fd"
  shows "\<exists>raw parameters properties cleaned.
      dict_get schema ''parameters'' = Some raw
    \<and> json_schema_to_model self raw = Inr parameters
    \<and> items (dict_get_default parameters ''properties'' (PDict [])) = Inr properties
    \<and> dict_get (fd_parameters fd) ''properties'' = Some (PDict cleaned)
    \<and> (\<forall>(n, c)\<in>set cleaned. no_examples c)
    \<and> (distinct (map fst properties) \<longrightarrow> list_all2 cleaned_of properties cleaned)
    \<and> dict_get (fd_parameters fd) ''required''
        = Some (dict_get_default parameters ''required'' (PList []))"
proof -
  from assms obtain action where name: "dict_get schema ''name'' = Some action"
    by (cases "dict_get schema ''name''") (simp_all add: wrap_tool_def)
  from assms name obtain raw where raw: "dict_get schema ''parameters'' = Some raw"
    by (cases "dict_get schema ''parameters''") (simp_all add: wrap_tool_def)
  from assms name raw obtain parameters
    where norm: "json_schema_to_model self raw = Inr parameters"
    by (cases "json_schema_to_model self raw") (simp_all add: wrap_tool_def)
  from assms name raw norm obtain properties
    where props: "items (dict_get_default parameters ''properties'' (PDict [])) = Inr properties"
    by (cases "items (dict_get_default parameters ''properties'' (PDict []))")
       (simp_all add: wrap_tool_def)
  from assms name raw norm props obtain cleaned
    where clean: "clean_properties properties [] = Inr cleaned"
    by (cases "clean_properties properties []") (simp_all add: wrap_tool_def)
  from assms name raw norm props clean
  have fd: "fd_parameters fd =
       [(''type'', PStr ''object''), (''properties'', PDict cleaned),
        (''required'', dict_get_default parameters ''required'' (PList []))]"
    by (auto simp: wrap_tool_def)
  have p: "dict_get (fd_parameters fd) ''properties'' = Some (PDict cleaned)"
    by (simp add: fd dict_get_def)
  have r: "dict_get (fd_parameters fd) ''required''
        = Some (dict_get_default parameters ''required'' (PList []))"
    by (simp add: fd dict_get_def)
  have ne: "\<forall>(n, c)\<in>set cleaned. no_examples c"
    using clean by (rule clean_properties_no_examples) simp
  have through: "distinct (map fst properties) \<longrightarrow> list_all2 cleaned_of properties cleaned"
  proof
    assume "distinct (map fst properties)"
    then have "distinct (map fst ([] @ properties))" by simp
    with clean have "\<exists>new. cleaned = [] @ new \<and> list_all2 cleaned_of properties new"
      by (rule clean_properties_distinct)
    then show "list_all2 cleaned_of properties cleaned" by simp
  qed
  from raw norm props p ne through r show ?thesis by blast
qed

theorem wrap_tool_parameters_witness:
  "wrap_tool log_toolset star_schema None = Inr star_declaration
   \<and> (\<exists>raw parameters properties cleaned.
      dict_get star_schema ''parameters'' = Some raw
    \<and> json_schema_to_model log_toolset raw = Inr parameters
    \<and> items (dict_get_default parameters ''properties'' (PDict [])) = Inr properties
    \<and> dict_get (fd_parameters star_declaration) ''properties'' = Some (PDict cleaned)
    \<and> (\<forall>(n, c)\<in>set cleaned. no_examples c)
    \<and> (distinct (map fst properties) \<longrightarrow> list_all2 cleaned_of properties cleaned)
    \<and> dict_get (fd_parameters star_declaration) ''required''
        = Some (dict_get_default parameters ''required'' (PList [])))
   \<and> dict_get (fd_parameters star_declaration) ''properties''
        = Some (PDict [(''owner'', PDict [(''type'', PStr ''string''), (''title'', PStr ''Owner'')])])
   \<and> dict_get (fd_parameters star_declaration) ''required'' = Some (PList [PStr ''owner''])"
proof -
  have run: "wrap_tool log_toolset star_schema None = Inr star_declaration"
    by (simp add: wrap_tool_def log_toolset_def star_schema_def star_declaration_def
          dict_get_def dict_get_default_def dict_comp_def)
  have "dict_get (fd_parameters star_declaration) ''properties''
        = Some (PDict [(''owner'', PDict [(''type'', PStr ''string''), (''title'', PStr ''Owner'')])])"
    and "dict_get (fd_parameters star_declaration) ''required'' = Some (PList [PStr ''owner''])"
    by (simp_all add: star_declaration_def dict_get_def)
  with wrap_tool_parameters [OF run] run show ?thesis by (intro conjI)
qed

text \<open>
  Claim C7 says that the description of the declaration is the name of the schema
  whenever the schema's description is missing or falsy. The source takes
  \<^verbatim>\<open>schema.get("description", schema["name"])\<close>, which falls back to the name only when the
  key is missing: an empty description stays empty.
\<close>

theorem description_empty_counterexample:
  "wrap_tool log_toolset
     [(''name'', PStr ''GITHUB_STAR''), (''description'', PStr ''''), (''parameters'', PDict [])]
     None
   = Inr \<lparr>fd_name = PStr ''GITHUB_STAR'', fd_description = PStr '''',
          fd_parameters = [(''type'', PStr ''object''), (''properties'', PDict []),
                           (''required'', PList [])]\<rparr>
   \<and> PStr '''' \<noteq> PStr ''GITHUB_STAR''"
  by (simp add: wrap_tool_def log_toolset_def dict_get_def dict_get_default_def)

text \<open>
  Claim C7, as the code has it. The description of the declaration is the value the schema
  holds under \<^verbatim>\<open>description\<close>, whatever that value is, and the name of the schema when the
  schema has no such key.
\<close>

theorem wrap_tool_description:
  assumes "wrap_tool self schema eid = Inr fd"
  shows "\<exists>action. dict_get schema ''name'' = Some action \<and> fd_name fd = action \<and>
     fd_description fd = (case dict_get schema ''description'' of Some d \<Rightarrow> d | None \<Rightarrow> action)"
  using assms
  by (auto simp: wrap_tool_def dict_get_default_def Let_def split: option.splits sum.splits)

theorem wrap_tool_description_witness:
  "wrap_tool log_toolset star_schema None = Inr star_declaration
   \<and> (\<exists>action. dict_get star_schema ''name'' = Some action
        \<and> fd_name star_declaration = action
        \<and> fd_description star_declaration
            = (case dict_get star_schema ''description'' of Some d \<Rightarrow> d | None \<Rightarrow> action))
   \<and> dict_get star_schema ''description'' = None
   \<and> fd_description star_declaration = PStr ''GITHUB_STAR''"
proof -
  have run: "wrap_tool log_toolset star_schema None = Inr star_declaration"
    by (simp add: wrap_tool_def log_toolset_def star_schema_def star_declaration_def
          dict_get_def dict_get_default_def dict_comp_def)
  have "dict_get star_schema ''description'' = None"
    and "fd_description star_declaration = PStr ''GITHUB_STAR''"
    by (simp_all add: star_schema_def star_declaration_def dict_get_def)
  with wrap_tool_description [OF run] run show ?thesis by (intro conjI)
qed

end
